theory Spec2Isabelle
  imports Main "HOL-Library.Multiset"
begin

unbundle bit_operations_syntax

section \<open>OneShot: a shallow embedding of \<open>oneshot.py\<close>\<close>

text \<open>
  The embedding follows \<open>oneshot.py\<close> function by function. Python integers are \<open>int\<close>.
  A Python \<open>str\<close> is an Isabelle \<open>string\<close>, each character standing for the code point of
  its value (0 to 255). An exception is a value \<open>Inl e\<close> of a sum type, a normal return
  is \<open>Inr v\<close>. Printing to the terminal and process management are not modelled.
\<close>

subsection \<open>Exceptions and dynamically typed values\<close>

datatype error =
    ValueError | IndexError | KeyError | TypeError | AssertionError
  | UnicodeDecodeError | UnicodeEncodeError | OverflowError | WPSException

text \<open>A generator of \<open>WPSpin.algos\<close> returns an integer, or the empty string for \<open>pinEmpty\<close>.\<close>

datatype pyval = PInt int | PStr string

subsection \<open>Python string primitives\<close>

text \<open>\<open>s.startswith(p)\<close> and \<open>sub in s\<close>.\<close>

fun startswith :: "string \<Rightarrow> string \<Rightarrow> bool" where
  "startswith [] s = True"
| "startswith (p # ps) [] = False"
| "startswith (p # ps) (c # cs) = (p = c \<and> startswith ps cs)"

fun contains :: "string \<Rightarrow> string \<Rightarrow> bool" where
  "contains sub [] = (sub = [])"
| "contains sub (c # cs) = (startswith sub (c # cs) \<or> contains sub cs)"

text \<open>
  \<open>s.replace(old, new)\<close> and \<open>s.split(sep)\<close> for a non-empty \<open>old\<close> or \<open>sep\<close> (the source
  only passes non-empty literals; Python raises on an empty separator). Both scan from
  the left and skip over a match. \<open>py_split_max\<close> is \<open>s.split(sep, n)\<close>.
\<close>

function py_replace :: "string \<Rightarrow> string \<Rightarrow> string \<Rightarrow> string" where
  "py_replace old new [] = []"
| "py_replace old new (c # cs) =
     (if startswith old (c # cs) then new @ py_replace old new (drop (length old - 1) cs)
      else c # py_replace old new cs)"
  by pat_completeness auto
termination
  by (relation "measure (\<lambda>(old, new, s). length s)") auto

function split_from :: "string \<Rightarrow> string \<Rightarrow> string \<Rightarrow> string list" where
  "split_from sep cur [] = [cur]"
| "split_from sep cur (c # cs) =
     (if startswith sep (c # cs) then cur # split_from sep [] (drop (length sep - 1) cs)
      else split_from sep (cur @ [c]) cs)"
  by pat_completeness auto
termination
  by (relation "measure (\<lambda>(sep, cur, s). length s)") auto

definition py_split :: "string \<Rightarrow> string \<Rightarrow> string list" where
  "py_split sep s = split_from sep [] s"

function split_max_from :: "string \<Rightarrow> nat \<Rightarrow> string \<Rightarrow> string \<Rightarrow> string list" where
  "split_max_from sep n cur [] = [cur]"
| "split_max_from sep n cur (c # cs) =
     (if n = 0 then [cur @ c # cs]
      else if startswith sep (c # cs)
        then cur # split_max_from sep (n - 1) [] (drop (length sep - 1) cs)
      else split_max_from sep n (cur @ [c]) cs)"
  by pat_completeness auto
termination
  by (relation "measure (\<lambda>(sep, n, cur, s). length s)") auto

definition py_split_max :: "string \<Rightarrow> nat \<Rightarrow> string \<Rightarrow> string list" where
  "py_split_max sep n s = split_max_from sep n [] s"

text \<open>\<open>ord(c)\<close>, and \<open>s.upper()\<close> on ASCII text.\<close>

definition ord :: "char \<Rightarrow> nat" where
  "ord c = of_char c"

definition upper_char :: "char \<Rightarrow> char" where
  "upper_char c = (if 97 \<le> ord c \<and> ord c \<le> 122 then char_of (ord c - 32) else c)"

definition py_upper :: "string \<Rightarrow> string" where
  "py_upper s = map upper_char s"

text \<open>\<open>s.zfill(width)\<close>: zeros go after a leading sign.\<close>

definition py_zfill :: "nat \<Rightarrow> string \<Rightarrow> string" where
  "py_zfill width s =
     (if width \<le> length s then s
      else (case s of
              c # cs \<Rightarrow>
                if c = CHR ''+'' \<or> c = CHR ''-''
                then c # replicate (width - length s) CHR ''0'' @ cs
                else replicate (width - length s) CHR ''0'' @ s
            | [] \<Rightarrow> replicate width CHR ''0''))"

subsection \<open>Integers and text\<close>

text \<open>The digit characters of \<open>str\<close> and \<open>hex\<close>.\<close>

definition digit_char :: "nat \<Rightarrow> char" where
  "digit_char d = (if d < 10 then char_of (48 + d) else char_of (87 + d))"

function digits_of :: "nat \<Rightarrow> int \<Rightarrow> string" where
  "digits_of base n =
     (if base < 2 \<or> n < int base then [digit_char (nat n)]
      else digits_of base (n div int base) @ [digit_char (nat (n mod int base))])"
  by pat_completeness auto
termination
  by (relation "measure (\<lambda>(base, n). nat n)") (auto intro!: int_div_less_self)

declare digits_of.simps [simp del]

text \<open>\<open>str(n)\<close> and \<open>hex(n)\<close> of an integer.\<close>

definition py_str :: "int \<Rightarrow> string" where
  "py_str n = (if n < 0 then ''-'' else '''') @ digits_of 10 \<bar>n\<bar>"

definition py_hex :: "int \<Rightarrow> string" where
  "py_hex n = (if n < 0 then ''-0x'' else ''0x'') @ digits_of 16 \<bar>n\<bar>"

text \<open>
  \<open>int(s, base)\<close> for a string \<open>s\<close>, after CPython's \<open>PyLong_FromUnicodeObject\<close> and
  \<open>PyLong_FromString\<close>: surrounding whitespace, one optional sign, for base 16 an optional
  \<open>0x\<close> prefix, then digits with single underscores between them; anything else is a
  \<open>ValueError\<close>. The whitespace is the ASCII whitespace together with the two Unicode
  spaces below 256, \<open>U+0085\<close> and \<open>U+00A0\<close>, which CPython turns into blanks before it
  parses; no character from 127 to 255 is a decimal digit.
\<close>

definition int_isspace :: "char \<Rightarrow> bool" where
  "int_isspace c = (ord c = 32 \<or> (9 \<le> ord c \<and> ord c \<le> 13) \<or> ord c = 0x85 \<or> ord c = 0xA0)"

definition digit_value :: "char \<Rightarrow> nat" where
  "digit_value c =
     (if 48 \<le> ord c \<and> ord c \<le> 57 then ord c - 48
      else if 97 \<le> ord c \<and> ord c \<le> 122 then ord c - 87
      else if 65 \<le> ord c \<and> ord c \<le> 90 then ord c - 55
      else 37)"

fun scan_digits :: "nat \<Rightarrow> bool \<Rightarrow> int \<Rightarrow> nat \<Rightarrow> string \<Rightarrow> (int \<times> nat \<times> string) option" where
  "scan_digits base prev_us acc n [] = (if prev_us then None else Some (acc, n, []))"
| "scan_digits base prev_us acc n (c # cs) =
     (if c = CHR ''_'' then (if prev_us then None else scan_digits base True acc n cs)
      else if digit_value c < base
        then scan_digits base False (acc * int base + int (digit_value c)) (n + 1) cs
      else if prev_us then None else Some (acc, n, c # cs))"

definition skip_sign :: "string \<Rightarrow> int \<times> string" where
  "skip_sign s =
     (case s of
        c # cs \<Rightarrow> if c = CHR ''+'' then (1, cs) else if c = CHR ''-'' then (- 1, cs) else (1, s)
      | [] \<Rightarrow> (1, s))"

definition skip_prefix :: "nat \<Rightarrow> string \<Rightarrow> string" where
  "skip_prefix base s =
     (case s of
        c0 # c1 # cs \<Rightarrow>
          if c0 = CHR ''0'' \<and>
             ((base = 16 \<and> (c1 = CHR ''x'' \<or> c1 = CHR ''X'')) \<or>
              (base = 8 \<and> (c1 = CHR ''o'' \<or> c1 = CHR ''O'')) \<or>
              (base = 2 \<and> (c1 = CHR ''b'' \<or> c1 = CHR ''B'')))
          then (case cs of u # cs' \<Rightarrow> if u = CHR ''_'' then cs' else cs | [] \<Rightarrow> cs)
          else s
      | _ \<Rightarrow> s)"

definition py_int :: "string \<Rightarrow> nat \<Rightarrow> error + int" where
  "py_int s base =
     (let (sign, s2) = skip_sign (dropWhile int_isspace s);
          s3 = skip_prefix base s2
      in if startswith ''_'' s3 then Inl ValueError
         else (case scan_digits base False 0 0 s3 of
                 None \<Rightarrow> Inl ValueError
               | Some (v, n, rest) \<Rightarrow>
                   if n = 0 then Inl ValueError
                   else if dropWhile int_isspace rest \<noteq> [] then Inl ValueError
                   else Inr (sign * v)))"

subsection \<open>The PIN generator (class \<open>WPSpin\<close>)\<close>

definition ALGO_MAC :: nat where "ALGO_MAC = 0"
definition ALGO_EMPTY :: nat where "ALGO_EMPTY = 1"
definition ALGO_STATIC :: nat where "ALGO_STATIC = 2"

record algo =
  name :: string
  mode :: nat
  gen :: "int \<Rightarrow> error + pyval"

text \<open>\<open>_parseMAC\<close> and \<open>_parseOUI\<close>: drop the delimiters, then \<open>int(..., 16)\<close>.\<close>

definition strip_delims :: "string \<Rightarrow> string" where
  "strip_delims mac = py_replace ''.'' [] (py_replace ''-'' [] (py_replace '':'' [] mac))"

definition parseMAC :: "string \<Rightarrow> error + int" where
  "parseMAC mac = py_int (strip_delims mac) 16"


text \<open>
  \<open>checksum\<close>. The source divides with \<open>int(pin / 10)\<close>, a float division truncated
  towards zero; on integers below \<open>2 ^ 53\<close> in absolute value that is the exact truncated
  quotient, and \<open>generate\<close> only passes values from 0 to 9999999.
\<close>

definition int_div10 :: "int \<Rightarrow> int" where
  "int_div10 pin = sgn pin * (\<bar>pin\<bar> div 10)"

function checksum_loop :: "int \<Rightarrow> int \<Rightarrow> int" where
  "checksum_loop accum pin =
     (if pin = 0 then accum
      else (let accum1 = accum + 3 * (pin mod 10);
                pin1 = int_div10 pin;
                accum2 = accum1 + pin1 mod 10;
                pin2 = int_div10 pin1
            in checksum_loop accum2 pin2))"
  by pat_completeness auto
termination
proof (relation "measure (\<lambda>(accum, pin). nat \<bar>pin\<bar>)")
  show "wf (measure (\<lambda>(accum, pin). nat \<bar>pin\<bar>))"
    by simp
next
  fix accum pin accum1 pin1 accum2 pin2 :: int
  assume "pin \<noteq> 0" and p1: "pin1 = int_div10 pin" and p2: "pin2 = int_div10 pin1"
  have "\<bar>int_div10 x\<bar> \<le> \<bar>x\<bar> div 10" for x :: int
    by (simp add: int_div10_def abs_mult abs_sgn_eq)
  then have "\<bar>pin2\<bar> \<le> \<bar>pin\<bar> div 10"
    using p1 p2 by (metis abs_ge_zero order_trans zdiv_mono1 zero_less_numeral
        div_by_1 pos_imp_zdiv_nonneg_iff zdiv_mono2 one_le_numeral zero_less_one)
  with \<open>pin \<noteq> 0\<close> show "((accum2, pin2), (accum, pin)) \<in> measure (\<lambda>(accum, pin). nat \<bar>pin\<bar>)"
    by simp
qed

declare checksum_loop.simps [simp del]

definition checksum :: "int \<Rightarrow> int" where
  "checksum pin = (10 - checksum_loop 0 pin mod 10) mod 10"

text \<open>The generators. \<open>int(10e6)\<close> is 10000000 and \<open>int(10e5)\<close> is 1000000.\<close>

definition pin24 :: "int \<Rightarrow> int" where
  "pin24 mac = mac AND 0xFFFFFF"

definition pin28 :: "int \<Rightarrow> int" where
  "pin28 mac = mac AND 0xFFFFFFF"

definition pin32 :: "int \<Rightarrow> int" where
  "pin32 mac = mac mod 0x100000000"

definition pinDLink :: "int \<Rightarrow> int" where
  "pinDLink mac =
     (let nic = mac AND 0xFFFFFF;
          pin0 = nic XOR 0x55AA55;
          pin1 = pin0 XOR (push_bit 4 (pin0 AND 0xF) +
                           push_bit 8 (pin0 AND 0xF) +
                           push_bit 12 (pin0 AND 0xF) +
                           push_bit 16 (pin0 AND 0xF) +
                           push_bit 20 (pin0 AND 0xF));
          pin2 = pin1 mod 10000000
      in if pin2 < 1000000 then pin2 + ((pin2 mod 9) * 1000000 + 1000000) else pin2)"

definition pinDLink1 :: "int \<Rightarrow> int" where
  "pinDLink1 mac = pinDLink (mac + 1)"

text \<open>
  The first lines of \<open>pinASUS\<close> and \<open>pinAirocon\<close>: the hexadecimal digits of the address,
  zero-filled to twelve, read back two at a time.
\<close>

fun bytes_loop :: "string \<Rightarrow> nat list \<Rightarrow> error + int list" where
  "bytes_loop mac [] = Inr []"
| "bytes_loop mac (i # is) =
     (case py_int (take 2 (drop i mac)) 16 of
        Inl e \<Rightarrow> Inl e
      | Inr v \<Rightarrow> (case bytes_loop mac is of Inl e \<Rightarrow> Inl e | Inr b \<Rightarrow> Inr (v # b)))"

definition mac_bytes :: "int \<Rightarrow> error + int list" where
  "mac_bytes mac =
     bytes_loop (py_zfill 12 (py_upper (last (py_split ''x'' (py_hex mac))))) [0, 2, 4, 6, 8, 10]"

definition pinASUS :: "int \<Rightarrow> error + int" where
  "pinASUS mac =
     (case mac_bytes mac of
        Inl e \<Rightarrow> Inl e
      | Inr b \<Rightarrow>
          (case b of
             [b0, b1, b2, b3, b4, b5] \<Rightarrow>
               py_int (concat (map (\<lambda>i. py_str ((b ! (i mod 6) + b5) mod
                                         (10 - (int i + b1 + b2 + b3 + b4 + b5) mod 7)))
                                   [0..<7])) 10
           | _ \<Rightarrow> Inl IndexError))"

definition pinAirocon :: "int \<Rightarrow> error + int" where
  "pinAirocon mac =
     (case mac_bytes mac of
        Inl e \<Rightarrow> Inl e
      | Inr b \<Rightarrow>
          (case b of
             [b0, b1, b2, b3, b4, b5] \<Rightarrow>
               Inr (((b0 + b1) mod 10)
                    + (((b5 + b0) mod 10) * 10)
                    + (((b4 + b5) mod 10) * 100)
                    + (((b3 + b4) mod 10) * 1000)
                    + (((b2 + b3) mod 10) * 10000)
                    + (((b1 + b2) mod 10) * 100000)
                    + (((b0 + b1) mod 10) * 1000000))
           | _ \<Rightarrow> Inl IndexError))"

text \<open>The catalogue \<open>self.algos\<close>, in insertion order.\<close>

definition algos :: "(string \<times> algo) list" where
  "algos =
    [(''pin24'',
       \<lparr>name = ''24-bit PIN'', mode = ALGO_MAC, gen = \<lambda>mac. Inr (PInt (pin24 mac))\<rparr>),
     (''pin28'',
       \<lparr>name = ''28-bit PIN'', mode = ALGO_MAC, gen = \<lambda>mac. Inr (PInt (pin28 mac))\<rparr>),
     (''pin32'',
       \<lparr>name = ''32-bit PIN'', mode = ALGO_MAC, gen = \<lambda>mac. Inr (PInt (pin32 mac))\<rparr>),
     (''pinDLink'',
       \<lparr>name = ''D-Link PIN'', mode = ALGO_MAC, gen = \<lambda>mac. Inr (PInt (pinDLink mac))\<rparr>),
     (''pinDLink1'',
       \<lparr>name = ''D-Link PIN +1'', mode = ALGO_MAC, gen = \<lambda>mac. Inr (PInt (pinDLink1 mac))\<rparr>),
     (''pinASUS'',
       \<lparr>name = ''ASUS PIN'', mode = ALGO_MAC, gen = \<lambda>mac. map_sum id PInt (pinASUS mac)\<rparr>),
     (''pinAirocon'',
       \<lparr>name = ''Airocon Realtek'', mode = ALGO_MAC, gen = \<lambda>mac. map_sum id PInt (pinAirocon mac)\<rparr>),
     (''pinEmpty'',
       \<lparr>name = ''Empty PIN'', mode = ALGO_EMPTY, gen = \<lambda>mac. Inr (PStr [])\<rparr>),
     (''pinCisco'',
       \<lparr>name = ''Cisco'', mode = ALGO_STATIC, gen = \<lambda>mac. Inr (PInt 1234567)\<rparr>),
     (''pinBrcm1'',
       \<lparr>name = ''Broadcom 1'', mode = ALGO_STATIC, gen = \<lambda>mac. Inr (PInt 2017252)\<rparr>),
     (''pinBrcm2'',
       \<lparr>name = ''Broadcom 2'', mode = ALGO_STATIC, gen = \<lambda>mac. Inr (PInt 4626484)\<rparr>),
     (''pinBrcm3'',
       \<lparr>name = ''Broadcom 3'', mode = ALGO_STATIC, gen = \<lambda>mac. Inr (PInt 7622990)\<rparr>),
     (''pinBrcm4'',
       \<lparr>name = ''Broadcom 4'', mode = ALGO_STATIC, gen = \<lambda>mac. Inr (PInt 6232714)\<rparr>),
     (''pinBrcm5'',
       \<lparr>name = ''Broadcom 5'', mode = ALGO_STATIC, gen = \<lambda>mac. Inr (PInt 1086411)\<rparr>),
     (''pinBrcm6'',
       \<lparr>name = ''Broadcom 6'', mode = ALGO_STATIC, gen = \<lambda>mac. Inr (PInt 3195719)\<rparr>),
     (''pinAirc1'',
       \<lparr>name = ''Airocon 1'', mode = ALGO_STATIC, gen = \<lambda>mac. Inr (PInt 3043203)\<rparr>),
     (''pinAirc2'',
       \<lparr>name = ''Airocon 2'', mode = ALGO_STATIC, gen = \<lambda>mac. Inr (PInt 7141225)\<rparr>),
     (''pinDSL2740R'',
       \<lparr>name = ''DSL-2740R'', mode = ALGO_STATIC, gen = \<lambda>mac. Inr (PInt 6817554)\<rparr>),
     (''pinRealtek1'',
       \<lparr>name = ''Realtek 1'', mode = ALGO_STATIC, gen = \<lambda>mac. Inr (PInt 9566146)\<rparr>),
     (''pinRealtek2'',
       \<lparr>name = ''Realtek 2'', mode = ALGO_STATIC, gen = \<lambda>mac. Inr (PInt 9571911)\<rparr>),
     (''pinRealtek3'',
       \<lparr>name = ''Realtek 3'', mode = ALGO_STATIC, gen = \<lambda>mac. Inr (PInt 4856371)\<rparr>),
     (''pinUpvel'',
       \<lparr>name = ''Upvel'', mode = ALGO_STATIC, gen = \<lambda>mac. Inr (PInt 2085483)\<rparr>),
     (''pinUR814AC'',
       \<lparr>name = ''UR-814AC'', mode = ALGO_STATIC, gen = \<lambda>mac. Inr (PInt 4397768)\<rparr>),
     (''pinUR825AC'',
       \<lparr>name = ''UR-825AC'', mode = ALGO_STATIC, gen = \<lambda>mac. Inr (PInt 529417)\<rparr>),
     (''pinOnlime'',
       \<lparr>name = ''Onlime'', mode = ALGO_STATIC, gen = \<lambda>mac. Inr (PInt 9995604)\<rparr>),
     (''pinEdimax'',
       \<lparr>name = ''Edimax'', mode = ALGO_STATIC, gen = \<lambda>mac. Inr (PInt 3561153)\<rparr>),
     (''pinThomson'',
       \<lparr>name = ''Thomson'', mode = ALGO_STATIC, gen = \<lambda>mac. Inr (PInt 6795814)\<rparr>),
     (''pinHG532x'',
       \<lparr>name = ''HG532x'', mode = ALGO_STATIC, gen = \<lambda>mac. Inr (PInt 3425928)\<rparr>),
     (''pinH108L'',
       \<lparr>name = ''H108L'', mode = ALGO_STATIC, gen = \<lambda>mac. Inr (PInt 9422988)\<rparr>),
     (''pinONO'',
       \<lparr>name = ''CBN ONO'', mode = ALGO_STATIC, gen = \<lambda>mac. Inr (PInt 9575521)\<rparr>)]"

text \<open>\<open>generate\<close>: the address is parsed first, then the algorithm is looked up.\<close>

definition generate :: "string \<Rightarrow> string \<Rightarrow> error + pyval" where
  "generate algo mac =
     (case parseMAC mac of
        Inl e \<Rightarrow> Inl e
      | Inr m \<Rightarrow>
          (case map_of algos algo of
             None \<Rightarrow> Inl WPSException
           | Some a \<Rightarrow>
               (case gen a m of
                  Inl e \<Rightarrow> Inl e
                | Inr pin \<Rightarrow>
                    if algo = ''pinEmpty'' then Inr pin
                    else (case pin of
                            PStr s \<Rightarrow> Inl TypeError
                          | PInt p \<Rightarrow>
                              (let p' = p mod 10000000
                               in Inr (PStr (py_zfill 8 (py_str p' @ py_str (checksum p')))))))))"



subsection \<open>The vendor-A formula as the specification words it\<close>

text \<open>
  The low nibble broadcast into nibble positions 1 to 5, and the formula of the
  specification's table for vendor-A, written from the specification.
\<close>

definition broadcast_nibble :: "int \<Rightarrow> int" where
  "broadcast_nibble n =
     push_bit 4 n OR push_bit 8 n OR push_bit 12 n OR push_bit 16 n OR push_bit 20 n"

definition vendorA_formula :: "int \<Rightarrow> int" where
  "vendorA_formula m =
     (let nic = m AND 0xFFFFFF;
          p0 = nic XOR 0x55AA55;
          p1 = p0 XOR broadcast_nibble (p0 AND 0xF);
          p2 = p1 mod 10000000
      in if p2 < 1000000 then p2 + ((p2 mod 9) * 1000000 + 1000000) else p2)"

text \<open>The number that a string of digits denotes in a base, most significant digit first.\<close>

definition digits_value :: "nat \<Rightarrow> string \<Rightarrow> int" where
  "digits_value base s = foldl (\<lambda>a c. a * int base + int (digit_value c)) 0 s"

subsection \<open>The check digit as the specification words it\<close>

text \<open>
  The decimal digits of \<open>base\<close>, least significant first, weighted 3, 1, 3, 1, ...
\<close>

definition dec_digit :: "int \<Rightarrow> nat \<Rightarrow> int" where
  "dec_digit base i = (base div 10 ^ i) mod 10"

definition weighted_sum :: "int \<Rightarrow> int" where
  "weighted_sum base = (\<Sum>i<7. (if even i then 3 else 1) * dec_digit base i)"

text \<open>The twelve digits from which \<open>mac_bytes\<close> reads the bytes.\<close>

definition mac_digits :: "int \<Rightarrow> string" where
  "mac_digits mac = py_zfill 12 (py_upper (last (py_split ''x'' (py_hex mac))))"

subsection \<open>Well-formed addresses as the specification words them\<close>

text \<open>Exactly twelve hexadecimal digits after the delimiters are removed.\<close>

definition is_hex :: "char \<Rightarrow> bool" where
  "is_hex c = (digit_value c < 16)"

definition well_formed_mac :: "string \<Rightarrow> bool" where
  "well_formed_mac mac = (length (strip_delims mac) = 12 \<and> list_all is_hex (strip_delims mac))"


text \<open>
  The value of an address as the specification words it: the delimiters dropped, the
  remaining digits read in base 16.
\<close>

definition is_delimiter :: "char \<Rightarrow> bool" where
  "is_delimiter c = (c = CHR '':'' \<or> c = CHR ''-'' \<or> c = CHR ''.'')"

definition mac_value :: "string \<Rightarrow> int" where
  "mac_value mac = digits_value 16 (filter (\<lambda>c. \<not> is_delimiter c) mac)"

subsection \<open>Codecs\<close>

text \<open>
  Text that Python decodes or converts can leave the code points below 256: such a \<open>str\<close>
  is a list of code points. Bytes and code points are natural numbers.
\<close>

text \<open>\<open>xs[i]\<close> for a non-negative index.\<close>

definition py_index :: "'a list \<Rightarrow> nat \<Rightarrow> error + 'a" where
  "py_index xs i = (if i < length xs then Inr (xs ! i) else Inl IndexError)"

text \<open>
  \<open>bytes.fromhex\<close> of a \<open>str\<close>: only ASCII text is accepted; ASCII whitespace may stand
  before a byte, not inside one.
\<close>

definition py_isspace :: "char \<Rightarrow> bool" where
  "py_isspace c = (ord c = 32 \<or> (9 \<le> ord c \<and> ord c \<le> 13))"

fun fromhex_ascii :: "string \<Rightarrow> error + nat list" where
  "fromhex_ascii [] = Inr []"
| "fromhex_ascii [c] = (if py_isspace c then Inr [] else Inl ValueError)"
| "fromhex_ascii (c # d # r) =
     (if py_isspace c then fromhex_ascii (d # r)
      else if 16 \<le> digit_value c \<or> 16 \<le> digit_value d then Inl ValueError
      else (case fromhex_ascii r of
              Inl e \<Rightarrow> Inl e
            | Inr bs \<Rightarrow> Inr ((16 * digit_value c + digit_value d) # bs)))"

definition fromhex :: "nat list \<Rightarrow> error + nat list" where
  "fromhex cps =
     (if \<exists>cp\<in>set cps. 128 \<le> cp then Inl ValueError else fromhex_ascii (map char_of cps))"

text \<open>
  \<open>bytes.decode('utf-8')\<close>, strict: well-formed sequences only, no overlong forms, no
  surrogates, nothing above \<open>U+10FFFF\<close>. \<open>utf8_encode\<close> is the encoding of a \<open>str\<close> of code
  points below 256, which CPython applies to a \<open>str\<close> handed to a bytes codec.
\<close>

definition cont :: "nat \<Rightarrow> bool" where
  "cont b = (0x80 \<le> b \<and> b \<le> 0xBF)"

fun utf8_decode :: "nat list \<Rightarrow> nat list option" where
  "utf8_decode [] = Some []"
| "utf8_decode (b # bs) =
     (if b < 0x80 then map_option ((#) b) (utf8_decode bs)
      else if 0xC2 \<le> b \<and> b \<le> 0xDF then
        (case bs of
           c1 # r \<Rightarrow>
             if cont c1 then map_option ((#) ((b - 0xC0) * 64 + (c1 - 0x80))) (utf8_decode r)
             else None
         | _ \<Rightarrow> None)
      else if 0xE0 \<le> b \<and> b \<le> 0xEF then
        (case bs of
           c1 # c2 # r \<Rightarrow>
             if cont c1 \<and> cont c2 \<and> (b = 0xE0 \<longrightarrow> 0xA0 \<le> c1) \<and> (b = 0xED \<longrightarrow> c1 \<le> 0x9F)
             then map_option ((#) ((b - 0xE0) * 4096 + (c1 - 0x80) * 64 + (c2 - 0x80)))
                    (utf8_decode r)
             else None
         | _ \<Rightarrow> None)
      else if 0xF0 \<le> b \<and> b \<le> 0xF4 then
        (case bs of
           c1 # c2 # c3 # r \<Rightarrow>
             if cont c1 \<and> cont c2 \<and> cont c3 \<and> (b = 0xF0 \<longrightarrow> 0x90 \<le> c1) \<and>
                (b = 0xF4 \<longrightarrow> c1 \<le> 0x8F)
             then map_option ((#) ((b - 0xF0) * 262144 + (c1 - 0x80) * 4096 +
                                   (c2 - 0x80) * 64 + (c3 - 0x80)))
                    (utf8_decode r)
             else None
         | _ \<Rightarrow> None)
      else None)"

definition decode_utf8 :: "nat list \<Rightarrow> error + nat list" where
  "decode_utf8 bs = (case utf8_decode bs of None \<Rightarrow> Inl UnicodeDecodeError | Some cps \<Rightarrow> Inr cps)"

definition utf8_encode :: "string \<Rightarrow> nat list" where
  "utf8_encode s =
     concat (map (\<lambda>c. if ord c < 128 then [ord c] else [0xC0 + ord c div 64, 0x80 + ord c mod 64]) s)"

text \<open>\<open>str.encode('latin1')\<close> of a list of code points.\<close>

definition encode_latin1 :: "nat list \<Rightarrow> error + nat list" where
  "encode_latin1 cps = (if \<forall>cp\<in>set cps. cp < 256 then Inr cps else Inl UnicodeEncodeError)"

text \<open>
  \<open>codecs.decode(s, 'unicode-escape')\<close> on the bytes of \<open>s\<close>, after CPython's decoder: a
  backslash starts an escape, every other byte stands for the code point of its value. The table of character
  names behind \<open>\\N{...}\<close> is not part of the program; it is the parameter \<open>ucn\<close>.
\<close>

definition hex_digits_value :: "string \<Rightarrow> nat" where
  "hex_digits_value s = foldl (\<lambda>a c. a * 16 + digit_value c) 0 s"

definition is_octal :: "char \<Rightarrow> bool" where
  "is_octal c = (48 \<le> ord c \<and> ord c \<le> 55)"

definition simple_escape :: "char \<Rightarrow> nat option" where
  "simple_escape e =
     (if e = CHR 0x5C then Some 0x5C
      else if e = CHR 0x27 then Some 0x27
      else if e = CHR 0x22 then Some 0x22
      else if e = CHR ''b'' then Some 8
      else if e = CHR ''f'' then Some 12
      else if e = CHR ''t'' then Some 9
      else if e = CHR ''n'' then Some 10
      else if e = CHR ''r'' then Some 13
      else if e = CHR ''v'' then Some 11
      else if e = CHR ''a'' then Some 7
      else None)"

definition hex_escape_length :: "char \<Rightarrow> nat" where
  "hex_escape_length e = (if e = CHR ''x'' then 2 else if e = CHR ''u'' then 4 else 8)"

function unicode_escape_decode :: "(string \<Rightarrow> nat option) \<Rightarrow> string \<Rightarrow> error + nat list" where
  "unicode_escape_decode ucn [] = Inr []"
| "unicode_escape_decode ucn (c # cs) =
     (if c \<noteq> CHR 0x5C then
        (case unicode_escape_decode ucn cs of Inl e \<Rightarrow> Inl e | Inr r \<Rightarrow> Inr (ord c # r))
      else (case cs of
              [] \<Rightarrow> Inl UnicodeDecodeError
            | e # rest \<Rightarrow>
                if e = CHR 0x0A then unicode_escape_decode ucn rest
                else if simple_escape e \<noteq> None then
                  (case unicode_escape_decode ucn rest of
                     Inl err \<Rightarrow> Inl err
                   | Inr r \<Rightarrow> Inr (the (simple_escape e) # r))
                else if is_octal e then
                  (let ds = e # takeWhile is_octal (take 2 rest);
                       v = foldl (\<lambda>a d. a * 8 + (ord d - 48)) 0 ds
                   in case unicode_escape_decode ucn (drop (length ds - 1) rest) of
                        Inl err \<Rightarrow> Inl err
                      | Inr r \<Rightarrow> Inr (v # r))
                else if e = CHR ''x'' \<or> e = CHR ''u'' \<or> e = CHR ''U'' then
                  (let n = hex_escape_length e; ds = take n rest
                   in if length ds < n \<or> (\<exists>d\<in>set ds. 16 \<le> digit_value d)
                        \<or> 0x10FFFF < hex_digits_value ds
                      then Inl UnicodeDecodeError
                      else (case unicode_escape_decode ucn (drop n rest) of
                              Inl err \<Rightarrow> Inl err
                            | Inr r \<Rightarrow> Inr (hex_digits_value ds # r)))
                else if e = CHR ''N'' then
                  (case rest of
                     b # after \<Rightarrow>
                       if b = CHR 0x7B \<and> CHR 0x7D \<in> set after \<and>
                          takeWhile (\<lambda>x. x \<noteq> CHR 0x7D) after \<noteq> [] then
                         (case ucn (takeWhile (\<lambda>x. x \<noteq> CHR 0x7D) after) of
                            None \<Rightarrow> Inl UnicodeDecodeError
                          | Some cp \<Rightarrow>
                              (case unicode_escape_decode ucn
                                      (drop 1 (dropWhile (\<lambda>x. x \<noteq> CHR 0x7D) after)) of
                                 Inl err \<Rightarrow> Inl err
                               | Inr r \<Rightarrow> Inr (cp # r)))
                       else Inl UnicodeDecodeError
                   | [] \<Rightarrow> Inl UnicodeDecodeError)
                else (case unicode_escape_decode ucn rest of
                        Inl err \<Rightarrow> Inl err
                      | Inr r \<Rightarrow> Inr (0x5C # ord e # r))))"
  by pat_completeness auto
termination
proof -
  have d: "length (dropWhile P xs) - Suc 0 < Suc (Suc (Suc (length xs)))" for P and xs :: string
    using length_dropWhile_le [of P xs] by linarith
  show ?thesis
    by (relation "measure (\<lambda>(ucn, s). length s)") (auto simp: d)
qed

declare unicode_escape_decode.simps [simp del]

text \<open>The chain \<open>codecs.decode(s, 'unicode-escape').encode('latin1').decode('utf-8')\<close>.\<close>

definition decode_escaped :: "(string \<Rightarrow> nat option) \<Rightarrow> string \<Rightarrow> error + nat list" where
  "decode_escaped ucn s =
     (case unicode_escape_decode ucn (map char_of (utf8_encode s)) of
        Inl e \<Rightarrow> Inl e
      | Inr cps \<Rightarrow> (case encode_latin1 cps of Inl e \<Rightarrow> Inl e | Inr bs \<Rightarrow> decode_utf8 bs))"

subsection \<open>The session tracker\<close>

text \<open>
  The class \<open>Data\<close>, and the fields of \<open>Options\<close> that the session tracker reads or writes.
  The artifacts and the key come out of \<open>upper\<close> and \<open>decode\<close>: they are lists of code
  points. The state tag is cut out of a line.
\<close>

record Data =
  pke :: "nat list"
  pkr :: "nat list"
  e_hash1 :: "nat list"
  e_hash2 :: "nat list"
  authkey :: "nat list"
  e_nonce :: "nat list"
  wpa_psk :: "nat list"
  state :: string

record Options =
  interface :: string
  bssid :: string
  essid :: "nat list option"
  pixiemode :: bool
  verbose :: bool

definition Data_init :: Data where
  "Data_init = \<lparr>pke = [], pkr = [], e_hash1 = [], e_hash2 = [], authkey = [], e_nonce = [],
                 wpa_psk = [], state = []\<rparr>"

definition got_all :: "Data \<Rightarrow> bool" where
  "got_all d = (pke d \<noteq> [] \<and> pkr d \<noteq> [] \<and> e_nonce d \<noteq> [] \<and> authkey d \<noteq> [] \<and>
                e_hash1 d \<noteq> [] \<and> e_hash2 d \<noteq> [])"

definition statechange :: "Data \<Rightarrow> string \<Rightarrow> string \<Rightarrow> Data" where
  "statechange d old new = d\<lparr>state := new\<rparr>"

text \<open>
  \<open>s.upper()\<close> as Python computes it on code points below 256: the letters \<open>a\<close> to \<open>z\<close>
  and the accented letters lose 32, \<open>U+00DF\<close> becomes \<open>SS\<close>, and the capitals of \<open>U+00B5\<close>
  and \<open>U+00FF\<close> lie beyond 255.
\<close>

definition upper_cp :: "char \<Rightarrow> nat list" where
  "upper_cp c =
     (if 97 \<le> ord c \<and> ord c \<le> 122 then [ord c - 32]
      else if ord c = 0xB5 then [0x39C]
      else if ord c = 0xDF then [83, 83]
      else if ord c = 0xFF then [0x178]
      else if 0xE0 \<le> ord c \<and> ord c \<le> 0xFE \<and> ord c \<noteq> 0xF7 then [ord c - 32]
      else [ord c])"

definition str_upper :: "string \<Rightarrow> nat list" where
  "str_upper s = concat (map upper_cp s)"

definition get_hex :: "string \<Rightarrow> error + nat list" where
  "get_hex line =
     (case py_index (py_split_max '':'' 3 line) 2 of
        Inl e \<Rightarrow> Inl e
      | Inr a2 \<Rightarrow> Inr (str_upper (py_replace '' '' [] a2)))"

text \<open>\<open>line.rstrip('\n')\<close>.\<close>

definition rstrip_newline :: "string \<Rightarrow> string" where
  "rstrip_newline s = rev (dropWhile (\<lambda>c. c = CHR 0x0A) (rev s))"

text \<open>
  The six artifact branches of \<open>process_wpa_supplicant\<close> differ in the field they assign
  and in the byte length they assert. The field is assigned first, the length is asserted
  afterwards, so a failed assertion leaves the value in the record.
\<close>

datatype artifact = Nonce | PKR | PKE | AuthKey | EHash1 | EHash2

fun artifact_set :: "artifact \<Rightarrow> nat list \<Rightarrow> Data \<Rightarrow> Data" where
  "artifact_set Nonce h d = d\<lparr>e_nonce := h\<rparr>"
| "artifact_set PKR h d = d\<lparr>pkr := h\<rparr>"
| "artifact_set PKE h d = d\<lparr>pke := h\<rparr>"
| "artifact_set AuthKey h d = d\<lparr>authkey := h\<rparr>"
| "artifact_set EHash1 h d = d\<lparr>e_hash1 := h\<rparr>"
| "artifact_set EHash2 h d = d\<lparr>e_hash2 := h\<rparr>"

fun artifact_bytes :: "artifact \<Rightarrow> nat" where
  "artifact_bytes Nonce = 16"
| "artifact_bytes PKR = 192"
| "artifact_bytes PKE = 192"
| "artifact_bytes AuthKey = 32"
| "artifact_bytes EHash1 = 32"
| "artifact_bytes EHash2 = 32"

definition store_artifact ::
  "string \<Rightarrow> artifact \<Rightarrow> Options \<Rightarrow> Data \<Rightarrow> Options \<times> Data \<times> (error + bool)" where
  "store_artifact line a opts d =
     (case get_hex line of
        Inl e \<Rightarrow> (opts, d, Inl e)
      | Inr h \<Rightarrow>
          if length h = artifact_bytes a * 2 then (opts, artifact_set a h d, Inr True)
          else (opts, artifact_set a h d, Inl AssertionError))"

text \<open>The assignment to \<open>options.essid\<close> in the two \<open>Trying to ...\<close> branches.\<close>

definition set_essid ::
  "(string \<Rightarrow> nat option) \<Rightarrow> string \<Rightarrow> Options \<Rightarrow> Data \<Rightarrow> Options \<times> Data \<times> (error + bool)" where
  "set_essid ucn line opts d =
     (if contains ''SSID'' line then
        (case py_index (py_split [CHR 0x27] line) 1 of
           Inl e \<Rightarrow> (opts, d, Inl e)
         | Inr q \<Rightarrow>
             (case decode_escaped ucn q of
                Inl e \<Rightarrow> (opts, d, Inl e)
              | Inr t \<Rightarrow> (opts\<lparr>essid := Some t\<rparr>, d, Inr True)))
      else (opts, d, Inr True))"

text \<open>
  \<open>process_wpa_supplicant\<close>. The pipe is the list of lines that \<open>readline\<close> still has
  to return; at its end \<open>readline\<close> returns the empty string. The result is the state
  after the call, with the value returned or the exception raised.
\<close>

definition process_line ::
  "(string \<Rightarrow> nat option) \<Rightarrow> string \<Rightarrow> Options \<Rightarrow> Data \<Rightarrow> Options \<times> Data \<times> (error + bool)" where
  "process_line ucn line opts d =
     (if startswith ''WPS: '' line then
        (if contains ''Building Message M'' line then
           (case py_index (py_split ''Building Message M'' line) 1 of
              Inl e \<Rightarrow> (opts, d, Inl e)
            | Inr n \<Rightarrow> (opts, statechange d (state d) (''M'' @ n), Inr True))
         else if contains ''Received M'' line then
           (case py_index (py_split ''Received M'' line) 1 of
              Inl e \<Rightarrow> (opts, d, Inl e)
            | Inr n \<Rightarrow> (opts, statechange d (state d) (''M'' @ n), Inr True))
         else if contains ''Received WSC_NACK'' line then
           (opts, statechange d (state d) ''WSC_NACK'', Inr True)
         else if contains ''Enrollee Nonce'' line \<and> contains ''hexdump'' line then
           store_artifact line Nonce opts d
         else if contains ''DH own Public Key'' line \<and> contains ''hexdump'' line then
           store_artifact line PKR opts d
         else if contains ''DH peer Public Key'' line \<and> contains ''hexdump'' line then
           store_artifact line PKE opts d
         else if contains ''AuthKey'' line \<and> contains ''hexdump'' line then
           store_artifact line AuthKey opts d
         else if contains ''E-Hash1'' line \<and> contains ''hexdump'' line then
           store_artifact line EHash1 opts d
         else if contains ''E-Hash2'' line \<and> contains ''hexdump'' line then
           store_artifact line EHash2 opts d
         else if contains ''Network Key'' line \<and> contains ''hexdump'' line then
           (case get_hex line of
              Inl e \<Rightarrow> (opts, d, Inl e)
            | Inr h \<Rightarrow>
                (case fromhex h of
                   Inl e \<Rightarrow> (opts, d, Inl e)
                 | Inr bs \<Rightarrow>
                     (case decode_utf8 bs of
                        Inl e \<Rightarrow> (opts, d, Inl e)
                      | Inr psk \<Rightarrow>
                          (opts, statechange (d\<lparr>wpa_psk := psk\<rparr>) (state d) ''GOT_PSK'',
                           Inr True))))
         else (opts, d, Inr True))
      else if contains '': State: '' line then
        (case py_index (py_split '': State: '' line) 1 of
           Inl e \<Rightarrow> (opts, d, Inl e)
         | Inr t \<Rightarrow>
             (case py_split '' -> '' t of
                [old, new] \<Rightarrow> (opts, statechange d old new, Inr True)
              | _ \<Rightarrow> (opts, d, Inl TypeError)))
      else if contains ''WPS-FAIL'' line then
        (opts, statechange d (state d) ''WPS-FAIL'', Inr True)
      else if contains ''NL80211_CMD_DEL_STATION'' line then (opts, d, Inr True)
      else if contains ''Trying to authenticate with'' line then set_essid ucn line opts d
      else if contains ''Authentication response'' line then (opts, d, Inr True)
      else if contains ''Trying to associate with'' line then set_essid ucn line opts d
      else if contains ''Associated with'' line \<and> contains (interface opts) line then
        (opts, d, Inr True)
      else if contains ''EAPOL: txStart'' line then
        (opts, statechange d (state d) ''EAPOL Start'', Inr True)
      else (opts, d, Inr True))"

fun process_wpa_supplicant ::
  "(string \<Rightarrow> nat option) \<Rightarrow> string list \<Rightarrow> Options \<Rightarrow> Data \<Rightarrow> Options \<times> Data \<times> (error + bool)" where
  "process_wpa_supplicant ucn [] opts d = (opts, d, Inr False)"
| "process_wpa_supplicant ucn (line # pipe) opts d =
     (if line = [] then (opts, d, Inr False)
      else process_line ucn (rstrip_newline line) opts d)"

text \<open>
  \<open>poll_wpa_supplicant\<close>: the loop ends at the end of the pipe or on one of the three
  terminal tags; an exception of \<open>process_wpa_supplicant\<close> leaves the loop and the function.
\<close>

definition poll_result :: "Data \<Rightarrow> bool" where
  "poll_result d = (if wpa_psk d \<noteq> [] then True else if got_all d then True else False)"

fun poll_wpa_supplicant ::
  "(string \<Rightarrow> nat option) \<Rightarrow> string list \<Rightarrow> Options \<Rightarrow> Data \<Rightarrow> Options \<times> Data \<times> (error + bool)" where
  "poll_wpa_supplicant ucn [] opts d =
     (case process_wpa_supplicant ucn [] opts d of
        (opts', d', Inl e) \<Rightarrow> (opts', d', Inl e)
      | (opts', d', Inr res) \<Rightarrow> (opts', d', Inr (poll_result d')))"
| "poll_wpa_supplicant ucn (line # pipe) opts d =
     (case process_wpa_supplicant ucn (line # pipe) opts d of
        (opts', d', Inl e) \<Rightarrow> (opts', d', Inl e)
      | (opts', d', Inr res) \<Rightarrow>
          if \<not> res then (opts', d', Inr (poll_result d'))
          else if state d' = ''WSC_NACK'' then (opts', d', Inr (poll_result d'))
          else if state d' = ''GOT_PSK'' then (opts', d', Inr (poll_result d'))
          else if state d' = ''WPS-FAIL'' then (opts', d', Inr (poll_result d'))
          else poll_wpa_supplicant ucn pipe opts' d')"

text \<open>Which artifact branch of \<open>process_wpa_supplicant\<close> a line takes, if any.\<close>

definition artifact_branch :: "string \<Rightarrow> artifact option" where
  "artifact_branch line =
     (if \<not> startswith ''WPS: '' line then None
      else if contains ''Building Message M'' line then None
      else if contains ''Received M'' line then None
      else if contains ''Received WSC_NACK'' line then None
      else if contains ''Enrollee Nonce'' line \<and> contains ''hexdump'' line then Some Nonce
      else if contains ''DH own Public Key'' line \<and> contains ''hexdump'' line then Some PKR
      else if contains ''DH peer Public Key'' line \<and> contains ''hexdump'' line then Some PKE
      else if contains ''AuthKey'' line \<and> contains ''hexdump'' line then Some AuthKey
      else if contains ''E-Hash1'' line \<and> contains ''hexdump'' line then Some EHash1
      else if contains ''E-Hash2'' line \<and> contains ''hexdump'' line then Some EHash2
      else None)"

text \<open>Lines and records for concrete runs.\<close>

definition no_names :: "string \<Rightarrow> nat option" where
  "no_names = (\<lambda>n. None)"

definition opts0 :: Options where
  "opts0 = \<lparr>interface = ''wlan0'', bssid = ''00:90:4C:C1:AC:21'', essid = None,
             pixiemode = True, verbose = False\<rparr>"

definition hexdump_line :: "string \<Rightarrow> nat \<Rightarrow> string" where
  "hexdump_line tag n = ''WPS: '' @ tag @ '' - hexdump(len=...):'' @ concat (replicate n '' 5a'')"

text \<open>The code points of \<open>5A\<close>, \<open>n\<close> times: what \<open>get_hex\<close> makes of such a line.\<close>

definition hex5A :: "nat \<Rightarrow> nat list" where
  "hex5A n = concat (replicate n [53, 65])"



section \<open>Verified properties\<close>

subsection \<open>The D-Link generators\<close>

lemma low_nibble_take_bit: "(x::int) AND 0xF = take_bit 4 x"
  by (simp add: take_bit_eq_mask mask_numeral)

text \<open>The shifted copies of a nibble occupy different bits, so adding them is OR-ing them.\<close>

lemma nibble_sum_is_or:
  fixes x :: int
  shows "push_bit 4 (x AND 0xF) + push_bit 8 (x AND 0xF) + push_bit 12 (x AND 0xF) +
         push_bit 16 (x AND 0xF) + push_bit 20 (x AND 0xF) = broadcast_nibble (x AND 0xF)"
proof -
  define n where "n = take_bit 4 x"
  define a b c d e where "a = push_bit 4 n" and "b = push_bit 8 n" and "c = push_bit 12 n"
    and "d = push_bit 16 n" and "e = push_bit 20 n"
  have 1: "a + b = a OR b"
    unfolding a_def b_def by (rule disjunctive_add) (auto simp: n_def bit_simps)
  have 2: "(a OR b) + c = (a OR b) OR c"
    unfolding a_def b_def c_def by (rule disjunctive_add) (auto simp: n_def bit_simps)
  have 3: "((a OR b) OR c) + d = ((a OR b) OR c) OR d"
    unfolding a_def b_def c_def d_def by (rule disjunctive_add) (auto simp: n_def bit_simps)
  have 4: "(((a OR b) OR c) OR d) + e = (((a OR b) OR c) OR d) OR e"
    unfolding a_def b_def c_def d_def e_def
    by (rule disjunctive_add) (auto simp: n_def bit_simps)
  have "a + b + c + d + e = (((a OR b) OR c) OR d) OR e"
    by (simp only: 1 2 3 4)
  then have "a + b + c + d + e = a OR b OR c OR d OR e"
    by (simp only: or.assoc)
  then show ?thesis
    unfolding low_nibble_take_bit broadcast_nibble_def a_def b_def c_def d_def e_def n_def .
qed

text \<open>
  Claim C6. For every MAC integer \<open>m\<close> (in particular every 48-bit one), \<open>pinDLink\<close>
  returns exactly the value of the specification's vendor-A formula, and \<open>pinDLink1\<close>
  returns that formula evaluated on \<open>m + 1\<close>.
\<close>

theorem pinDLink_formula:
  "pinDLink m = vendorA_formula m \<and> pinDLink1 m = vendorA_formula (m + 1)"
  by (simp only: pinDLink_def pinDLink1_def vendorA_formula_def nibble_sum_is_or simp_thms)

subsection \<open>Digits, \<open>int\<close> and \<open>str\<close>\<close>

lemma digit_value_underscore: "digit_value CHR ''_'' = 37"
  by (simp add: digit_value_def ord_def)

lemma digit_not_special:
  assumes "digit_value c < 37"
  shows "c \<noteq> CHR ''_''" "c \<noteq> CHR ''+''" "c \<noteq> CHR ''-''" "\<not> int_isspace c"
  using assms by (auto simp: digit_value_def ord_def int_isspace_def split: if_splits)

lemma scan_digits_all:
  assumes "\<forall>c\<in>set s. digit_value c < base" and "base \<le> 36"
  shows "scan_digits base pu acc n s =
           (if s = [] \<and> pu then None
            else Some (foldl (\<lambda>a c. a * int base + int (digit_value c)) acc s, n + length s, []))"
  using assms(1)
proof (induction s arbitrary: pu acc n)
  case Nil
  then show ?case by simp
next
  case (Cons c cs)
  then have "digit_value c < base" by simp
  with assms(2) have "c \<noteq> CHR ''_''" using digit_not_special(1) [of c] by simp
  with Cons \<open>digit_value c < base\<close> show ?case by simp
qed

lemma skip_prefix_digits:
  assumes "\<forall>c\<in>set s. digit_value c < base"
  shows "skip_prefix base s = s"
proof (cases s)
  case Nil
  then show ?thesis by (simp add: skip_prefix_def)
next
  case (Cons c0 t)
  show ?thesis
  proof (cases t)
    case Nil
    with Cons show ?thesis by (simp add: skip_prefix_def)
  next
    case (Cons c1 u)
    with assms \<open>s = c0 # t\<close> have "digit_value c1 < base" by simp
    then have "\<not> ((base = 16 \<and> (c1 = CHR ''x'' \<or> c1 = CHR ''X'')) \<or>
              (base = 8 \<and> (c1 = CHR ''o'' \<or> c1 = CHR ''O'')) \<or>
              (base = 2 \<and> (c1 = CHR ''b'' \<or> c1 = CHR ''B'')))"
      by (auto simp: digit_value_def ord_def)
    with Cons \<open>s = c0 # t\<close> show ?thesis by (auto simp: skip_prefix_def)
  qed
qed

lemma py_int_digits:
  assumes "s \<noteq> []" and "\<forall>c\<in>set s. digit_value c < base" and "base \<le> 36"
  shows "py_int s base = Inr (digits_value base s)"
proof -
  obtain c cs where s: "s = c # cs" using assms(1) by (cases s) auto
  with assms have c: "digit_value c < 37" by auto
  have 1: "dropWhile int_isspace s = s"
    using digit_not_special(4) [OF c] s by simp
  have 2: "skip_sign s = (1, s)"
    using digit_not_special(2,3) [OF c] s by (simp add: skip_sign_def)
  have 3: "skip_prefix base s = s"
    by (rule skip_prefix_digits) (rule assms(2))
  have 4: "\<not> startswith ''_'' s"
    using digit_not_special(1) [OF c] s by simp
  show ?thesis
    using 4 assms(1)
    by (simp add: py_int_def 1 2 3 Let_def scan_digits_all [OF assms(2,3)] digits_value_def)
qed

lemma digit_value_digit_char: "d < 36 \<Longrightarrow> digit_value (digit_char d) = d"
  by (simp add: digit_value_def digit_char_def ord_def)

lemma digits_value_snoc:
  "digits_value base (s @ [c]) = digits_value base s * int base + int (digit_value c)"
  by (simp add: digits_value_def)

lemma digits_of_props:
  assumes "2 \<le> base" and "base \<le> 36" and "0 \<le> n"
  shows "digits_of base n \<noteq> [] \<and> (\<forall>c\<in>set (digits_of base n). digit_value c < base) \<and>
         digits_value base (digits_of base n) = n"
  using assms
proof (induction base n rule: digits_of.induct)
  case (1 base n)
  show ?case
  proof (cases "n < int base")
    case True
    with 1 have d: "nat n < 36" "nat n < base" by auto
    have "digits_of base n = [digit_char (nat n)]"
      using True by (subst digits_of.simps) simp
    with d 1(4) show ?thesis
      by (simp add: digit_value_digit_char digits_value_def)
  next
    case False
    with 1 have ih: "digits_of base (n div int base) \<noteq> []"
      "\<forall>c\<in>set (digits_of base (n div int base)). digit_value c < base"
      "digits_value base (digits_of base (n div int base)) = n div int base"
      by (simp_all add: pos_imp_zdiv_nonneg_iff)
    have "n mod int base < int base" "0 \<le> n mod int base"
      using 1(2) by simp_all
    then have m: "nat (n mod int base) < base" "nat (n mod int base) < 36"
      using 1(3) by linarith+
    have eq: "digits_of base n =
               digits_of base (n div int base) @ [digit_char (nat (n mod int base))]"
      using False 1(2) by (subst digits_of.simps) simp
    show ?thesis
      using ih m 1(2) by (simp add: eq digits_value_snoc digit_value_digit_char)
  qed
qed

lemma length_digits_of:
  assumes "2 \<le> base" and "0 \<le> n" and "n < int base ^ k" and "0 < k"
  shows "length (digits_of base n) \<le> k"
  using assms
proof (induction k arbitrary: n)
  case 0
  then show ?case by simp
next
  case (Suc k)
  show ?case
  proof (cases "n < int base")
    case True
    then have "digits_of base n = [digit_char (nat n)]"
      by (subst digits_of.simps) simp
    then show ?thesis by simp
  next
    case False
    then have k: "0 < k" using Suc.prems by (cases k) auto
    have "n div int base < int base ^ k"
    proof (rule ccontr)
      assume "\<not> n div int base < int base ^ k"
      then have "int base * int base ^ k \<le> int base * (n div int base)"
        using Suc.prems(1) by (simp add: mult_left_mono)
      also have "\<dots> \<le> n"
      proof -
        have "n = int base * (n div int base) + n mod int base" by simp
        moreover have "0 \<le> n mod int base" using Suc.prems(1) by simp
        ultimately show ?thesis by linarith
      qed
      finally show False using Suc.prems(3) by simp
    qed
    moreover have "0 \<le> n div int base"
      using Suc.prems by (simp add: pos_imp_zdiv_nonneg_iff)
    ultimately have "length (digits_of base (n div int base)) \<le> k"
      using Suc.IH Suc.prems(1) k by blast
    moreover have "digits_of base n =
               digits_of base (n div int base) @ [digit_char (nat (n mod int base))]"
      using False Suc.prems(1) by (subst digits_of.simps) simp
    ultimately show ?thesis by simp
  qed
qed

lemma digits_value_zeros: "digits_value base (replicate k CHR ''0'' @ s) = digits_value base s"
proof -
  have z: "digit_value CHR ''0'' = 0"
    by (simp add: digit_value_def ord_def)
  have "foldl (\<lambda>a c. a * int base + int (digit_value c)) 0 (replicate k CHR ''0'') = 0"
    by (induction k) (simp_all add: z)
  then show ?thesis by (simp add: digits_value_def)
qed

lemma int_div10_nonneg: "0 \<le> p \<Longrightarrow> int_div10 p = p div 10"
  by (cases "p = 0") (simp_all add: int_div10_def sgn_if)

lemma checksum_loop_step:
  assumes "0 \<le> p"
  shows "checksum_loop a p = checksum_loop (a + 3 * (p mod 10) + (p div 10) mod 10) (p div 100)"
proof (cases "p = 0")
  case True
  then show ?thesis by (simp add: checksum_loop.simps [of _ 0])
next
  case False
  have "0 \<le> p div 10" using assms by simp
  then have "int_div10 (int_div10 p) = p div 100"
    using assms by (simp add: int_div10_nonneg zdiv_zmult2_eq)
  with False assms show ?thesis
    by (subst checksum_loop.simps) (simp add: Let_def int_div10_nonneg)
qed

lemma checksum_loop_weighted:
  assumes "0 \<le> p" and "p < 10000000"
  shows "checksum_loop 0 p = weighted_sum p"
proof -
  have d: "p div 100 div 100 = p div 10000" "p div 10000 div 100 = p div 1000000"
    "p div 1000000 div 100 = 0" "p div 100 div 10 = p div 1000"
    "p div 10000 div 10 = p div 100000" "p div 1000000 div 10 = 0"
    using assms by (simp_all add: zdiv_zmult2_eq [symmetric])
  have nn: "0 \<le> p div 100" "0 \<le> p div 10000" "0 \<le> p div 1000000"
    using assms by simp_all
  define a1 where "a1 = 3 * (p mod 10) + (p div 10) mod 10"
  define a2 where "a2 = a1 + 3 * ((p div 100) mod 10) + (p div 1000) mod 10"
  define a3 where "a3 = a2 + 3 * ((p div 10000) mod 10) + (p div 100000) mod 10"
  define a4 where "a4 = a3 + 3 * ((p div 1000000) mod 10)"
  have "checksum_loop 0 p = checksum_loop a1 (p div 100)"
    using checksum_loop_step [OF assms(1), of 0] by (simp add: a1_def)
  also have "\<dots> = checksum_loop a2 (p div 10000)"
    using checksum_loop_step [OF nn(1), of a1] by (simp add: a2_def d)
  also have "\<dots> = checksum_loop a3 (p div 1000000)"
    using checksum_loop_step [OF nn(2), of a2] by (simp add: a3_def d)
  also have "\<dots> = checksum_loop a4 0"
    using checksum_loop_step [OF nn(3), of a3] by (simp add: a4_def d)
  also have "\<dots> = a4"
    by (simp add: checksum_loop.simps [of _ 0])
  finally have "checksum_loop 0 p =
          3 * (p mod 10) + (p div 10) mod 10 + 3 * ((p div 100) mod 10) + (p div 1000) mod 10 +
          3 * ((p div 10000) mod 10) + (p div 100000) mod 10 + 3 * ((p div 1000000) mod 10)"
    by (simp add: a1_def a2_def a3_def a4_def)
  also have "\<dots> = weighted_sum p"
  proof -
    have "{..<7::nat} = {0, 1, 2, 3, 4, 5, 6}" by auto
    then show ?thesis by (simp add: weighted_sum_def dec_digit_def)
  qed
  finally show ?thesis .
qed

lemma checksum_range: "0 \<le> checksum p \<and> checksum p \<le> 9"
proof -
  have "0 \<le> checksum p" "checksum p < 10"
    by (simp_all add: checksum_def)
  then show ?thesis by linarith
qed

lemma checksum_zero: "checksum 0 = 0"
  by (simp add: checksum_def checksum_loop.simps [of _ 0])

lemma split_from_no_sep: "x \<notin> set t \<Longrightarrow> split_from [x] cur t = [cur @ t]"
  by (induction t arbitrary: cur) auto

lemma hex_digit_not_x: "digit_value c < 16 \<Longrightarrow> c \<noteq> CHR ''x''"
  by (auto simp: digit_value_def ord_def)

lemma last_split_py_hex: "last (py_split ''x'' (py_hex m)) = digits_of 16 \<bar>m\<bar>"
proof -
  define d where "d = digits_of 16 \<bar>m\<bar>"
  have "\<forall>c\<in>set d. digit_value c < 16"
    unfolding d_def using digits_of_props [of 16 "\<bar>m\<bar>"] by simp
  then have nx: "CHR ''x'' \<notin> set d"
    using hex_digit_not_x by blast
  have "split_from ''x'' [] (''-0x'' @ d) = [''-0'', d]"
    "split_from ''x'' [] (''0x'' @ d) = [''0'', d]"
    by (simp_all add: split_from_no_sep [OF nx])
  then have "last (py_split ''x'' ((if m < 0 then ''-0x'' else ''0x'') @ d)) = d"
    by (simp add: py_split_def)
  then show ?thesis
    by (simp only: py_hex_def d_def)
qed

lemma digit_value_upper_char: "digit_value (upper_char c) = digit_value c"
  by (auto simp: upper_char_def digit_value_def ord_def)

lemma py_zfill_digits:
  assumes "s \<noteq> []" and "digit_value (hd s) < 37"
  shows "py_zfill w s = replicate (w - length s) CHR ''0'' @ s"
proof -
  obtain c cs where s: "s = c # cs" using assms(1) by (cases s) auto
  with assms(2) have "c \<noteq> CHR ''+''" "c \<noteq> CHR ''-''"
    using digit_not_special(2,3) [of c] by simp_all
  with s show ?thesis by (simp add: py_zfill_def)
qed

lemma mac_digits_props:
  "12 \<le> length (mac_digits m) \<and> (\<forall>c\<in>set (mac_digits m). digit_value c < 16)"
proof -
  define h where "h = py_upper (digits_of 16 \<bar>m\<bar>)"
  have p: "digits_of 16 \<bar>m\<bar> \<noteq> []" "\<forall>c\<in>set (digits_of 16 \<bar>m\<bar>). digit_value c < 16"
    using digits_of_props [of 16 "\<bar>m\<bar>"] by simp_all
  then have h: "h \<noteq> []" "\<forall>c\<in>set h. digit_value c < 16"
    by (auto simp: h_def py_upper_def digit_value_upper_char)
  then have "digit_value (hd h) < 37"
    by (cases h) auto
  with h(1) have z: "mac_digits m = replicate (12 - length h) CHR ''0'' @ h"
    by (simp add: mac_digits_def last_split_py_hex h_def [symmetric] py_zfill_digits)
  have "digit_value CHR ''0'' < 16"
    by (simp add: digit_value_def ord_def)
  with h(2) show ?thesis
    unfolding z by auto
qed

lemma bytes_loop_digits:
  assumes "\<forall>c\<in>set z. digit_value c < 16" and "\<forall>i\<in>set is. i + 2 \<le> length z"
  shows "bytes_loop z is = Inr (map (\<lambda>i. digits_value 16 (take 2 (drop i z))) is)"
  using assms(2)
proof (induction "is")
  case Nil
  then show ?case by simp
next
  case (Cons i js)
  then have "i + 2 \<le> length z" by simp
  then have ne: "take 2 (drop i z) \<noteq> []" by auto
  have "set (take 2 (drop i z)) \<subseteq> set z"
    by (meson set_take_subset set_drop_subset order_trans)
  with assms(1) have "\<forall>c\<in>set (take 2 (drop i z)). digit_value c < 16" by blast
  with ne have "py_int (take 2 (drop i z)) 16 = Inr (digits_value 16 (take 2 (drop i z)))"
    by (intro py_int_digits) simp_all
  with Cons show ?case by simp
qed

lemma mac_bytes_total:
  "\<exists>b0 b1 b2 b3 b4 b5. mac_bytes m = Inr [b0, b1, b2, b3, b4, b5]"
proof -
  have "mac_bytes m = bytes_loop (mac_digits m) [0, 2, 4, 6, 8, 10]"
    by (simp add: mac_bytes_def mac_digits_def)
  also have "\<dots> = Inr (map (\<lambda>i. digits_value 16 (take 2 (drop i (mac_digits m))))
                        [0, 2, 4, 6, 8, 10])"
    using mac_digits_props [of m] by (intro bytes_loop_digits) auto
  finally show ?thesis by simp
qed

lemma py_str_digit:
  assumes "0 \<le> d" and "d < 10"
  shows "py_str d = [digit_char (nat d)]" and "digit_value (digit_char (nat d)) < 10"
proof -
  show "py_str d = [digit_char (nat d)]"
    using assms by (simp add: py_str_def digits_of.simps [of 10 d])
  have "nat d < 10" using assms by simp
  then show "digit_value (digit_char (nat d)) < 10"
    by (simp add: digit_value_digit_char)
qed

lemma pinASUS_total: "\<exists>v. pinASUS m = Inr v"
proof -
  obtain b0 b1 b2 b3 b4 b5 where b: "mac_bytes m = Inr [b0, b1, b2, b3, b4, b5]"
    using mac_bytes_total by blast
  define f where "f = (\<lambda>i::nat. ([b0, b1, b2, b3, b4, b5] ! (i mod 6) + b5) mod
                        (10 - (int i + b1 + b2 + b3 + b4 + b5) mod 7))"
  define s where "s = concat (map (\<lambda>i. py_str (f i)) [0..<7])"
  have r: "0 \<le> f i \<and> f i < 10" for i
  proof -
    have "0 \<le> (int i + b1 + b2 + b3 + b4 + b5) mod 7" "(int i + b1 + b2 + b3 + b4 + b5) mod 7 < 7"
      by simp_all
    then have k: "0 < 10 - (int i + b1 + b2 + b3 + b4 + b5) mod 7"
      "10 - (int i + b1 + b2 + b3 + b4 + b5) mod 7 \<le> 10" by linarith+
    have "0 \<le> f i" "f i < 10 - (int i + b1 + b2 + b3 + b4 + b5) mod 7"
      unfolding f_def using k(1) by (simp_all only: pos_mod_sign pos_mod_bound)
    with k(2) show ?thesis by linarith
  qed
  have "\<forall>c\<in>set s. digit_value c < 10"
    unfolding s_def using r by (auto simp: py_str_digit)
  moreover have "s \<noteq> []"
  proof -
    have "digit_char (nat (f 0)) \<in> set s"
      unfolding s_def using r [of 0] by (auto simp: py_str_digit intro!: bexI [of _ 0])
    then show ?thesis by auto
  qed
  ultimately have "py_int s 10 = Inr (digits_value 10 s)"
    by (intro py_int_digits) simp_all
  then show ?thesis
    by (simp add: pinASUS_def b s_def f_def)
qed

lemma pinAirocon_total: "\<exists>v. pinAirocon m = Inr v"
proof -
  obtain b0 b1 b2 b3 b4 b5 where b: "mac_bytes m = Inr [b0, b1, b2, b3, b4, b5]"
    using mac_bytes_total by blast
  then show ?thesis by (simp add: pinAirocon_def)
qed

lemma gen_total:
  assumes "map_of algos algo = Some a" and "algo \<noteq> ''pinEmpty''"
  shows "\<exists>raw. gen a m = Inr (PInt raw)"
proof -
  obtain va vb where v: "pinASUS m = Inr va" "pinAirocon m = Inr vb"
    using pinASUS_total pinAirocon_total by blast
  show ?thesis
    using assms by (auto simp: algos_def v split: if_splits)
qed

lemma parseMAC_hex:
  assumes "strip_delims mac \<noteq> []" and "list_all is_hex (strip_delims mac)"
  shows "parseMAC mac = Inr (digits_value 16 (strip_delims mac))"
  unfolding parseMAC_def using assms
  by (intro py_int_digits) (simp_all add: list_all_iff is_hex_def)

lemma parseMAC_well_formed:
  "well_formed_mac mac \<Longrightarrow> parseMAC mac = Inr (digits_value 16 (strip_delims mac))"
  by (rule parseMAC_hex) (auto simp: well_formed_mac_def)

text \<open>The text that \<open>generate\<close> builds from a raw value.\<close>

lemma pin_text:
  assumes "0 \<le> p" and "p < 10000000"
  shows "py_zfill 8 (py_str p @ py_str (checksum p)) =
           replicate (7 - length (digits_of 10 p)) CHR ''0'' @ digits_of 10 p @
             [digit_char (nat (checksum p))]"
    and "length (digits_of 10 p) \<le> 7"
proof -
  have c: "py_str (checksum p) = [digit_char (nat (checksum p))]"
    using checksum_range [of p] by (intro py_str_digit) simp_all
  have d: "digits_of 10 p \<noteq> []" "\<forall>c\<in>set (digits_of 10 p). digit_value c < 10"
    using digits_of_props [of 10 p] assms(1) by simp_all
  show l: "length (digits_of 10 p) \<le> 7"
    using assms by (intro length_digits_of) simp_all
  have s: "py_str p = digits_of 10 p"
    using assms(1) by (simp add: py_str_def)
  have "digit_value (hd (digits_of 10 p @ [digit_char (nat (checksum p))])) < 37"
    using d by (cases "digits_of 10 p") auto
  then have "py_zfill 8 (digits_of 10 p @ [digit_char (nat (checksum p))]) =
        replicate (8 - length (digits_of 10 p @ [digit_char (nat (checksum p))])) CHR ''0'' @
          digits_of 10 p @ [digit_char (nat (checksum p))]"
    by (intro py_zfill_digits) simp_all
  then show "py_zfill 8 (py_str p @ py_str (checksum p)) =
           replicate (7 - length (digits_of 10 p)) CHR ''0'' @ digits_of 10 p @
             [digit_char (nat (checksum p))]"
    by (simp add: s c)
qed

lemma generate_shape:
  assumes "parseMAC mac = Inr m" and "map_of algos algo = Some a"
    and "gen a m = Inr (PInt raw)" and "algo \<noteq> ''pinEmpty''"
  shows "generate algo mac =
           Inr (PStr (py_zfill 8 (py_str (raw mod 10000000) @ py_str (checksum (raw mod 10000000)))))"
  using assms by (simp add: generate_def Let_def)

text \<open>
  Claim C4. For every base from 0 to 9999999 the check digit is a digit from 0 to 9, equal
  to \<open>(10 - sum mod 10) mod 10\<close> for the sum of the decimal digits weighted 3, 1, 3, 1, ...
  from the least significant one; \<open>checksum 0 = 0\<close>; and for every registered algorithm
  other than \<open>pinEmpty\<close> and every well-formed address, \<open>generate\<close> returns a string of
  length 8 whose last character is the check digit of the raw value modulo 10000000.
\<close>

theorem checksum_generate:
  "(0 \<le> base \<and> base < 10000000 \<longrightarrow>
      0 \<le> checksum base \<and> checksum base \<le> 9 \<and>
      checksum base = (10 - weighted_sum base mod 10) mod 10) \<and>
   checksum 0 = 0 \<and>
   (well_formed_mac mac \<and> algo \<in> fst ` set algos \<and> algo \<noteq> ''pinEmpty'' \<longrightarrow>
      (\<exists>m a raw pin.
          parseMAC mac = Inr m \<and> map_of algos algo = Some a \<and> gen a m = Inr (PInt raw) \<and>
          generate algo mac = Inr (PStr pin) \<and> length pin = 8 \<and>
          last pin = digit_char (nat (checksum (raw mod 10000000)))))"
proof (intro conjI impI)
  assume "0 \<le> base \<and> base < 10000000"
  then show "checksum base = (10 - weighted_sum base mod 10) mod 10"
    by (simp add: checksum_def checksum_loop_weighted)
next
  show "0 \<le> checksum base" "checksum base \<le> 9"
    using checksum_range [of base] by simp_all
next
  show "checksum 0 = 0" by (rule checksum_zero)
next
  assume h: "well_formed_mac mac \<and> algo \<in> fst ` set algos \<and> algo \<noteq> ''pinEmpty''"
  define m where "m = digits_value 16 (strip_delims mac)"
  have pm: "parseMAC mac = Inr m"
    using h by (simp add: m_def parseMAC_well_formed)
  from h obtain a where a: "map_of algos algo = Some a"
    by (metis map_of_eq_None_iff not_Some_eq)
  from gen_total [OF a] h obtain raw where raw: "gen a m = Inr (PInt raw)"
    by blast
  define p where "p = raw mod 10000000"
  have p: "0 \<le> p" "p < 10000000" by (simp_all add: p_def)
  define pin where "pin = py_zfill 8 (py_str p @ py_str (checksum p))"
  have g: "generate algo mac = Inr (PStr pin)"
    using generate_shape [OF pm a raw] h by (simp add: pin_def p_def)
  have "length pin = 8" "last pin = digit_char (nat (checksum p))"
    using pin_text [OF p] by (simp_all add: pin_def)
  with pm a raw g show "\<exists>m a raw pin.
          parseMAC mac = Inr m \<and> map_of algos algo = Some a \<and> gen a m = Inr (PInt raw) \<and>
          generate algo mac = Inr (PStr pin) \<and> length pin = 8 \<and>
          last pin = digit_char (nat (checksum (raw mod 10000000)))"
    unfolding p_def by blast
qed

theorem checksum_generate_witness:
  "(0 \<le> (1234567::int) \<and> (1234567::int) < 10000000) \<and>
   well_formed_mac ''00:90:4C:C1:AC:21'' \<and> ''pinASUS'' \<in> fst ` set algos \<and>
   ''pinASUS'' \<noteq> ''pinEmpty'' \<and>
   checksum 1234567 = (10 - weighted_sum 1234567 mod 10) mod 10 \<and>
   (\<exists>pin. generate ''pinASUS'' ''00:90:4C:C1:AC:21'' = Inr (PStr pin) \<and> length pin = 8)"
proof -
  have w: "well_formed_mac ''00:90:4C:C1:AC:21''"
    by (simp add: well_formed_mac_def strip_delims_def is_hex_def digit_value_def ord_def)
  have r: "''pinASUS'' \<in> fst ` set algos"
    by (simp add: algos_def)
  show ?thesis
    using checksum_generate [of 1234567 "''00:90:4C:C1:AC:21''" "''pinASUS''"] w r
    by auto
qed

lemma py_replace_single: "py_replace [x] [] s = filter (\<lambda>c. c \<noteq> x) s"
  by (induction s) simp_all

lemma strip_delims_filter: "strip_delims mac = filter (\<lambda>c. \<not> is_delimiter c) mac"
proof -
  have "strip_delims mac =
          filter (\<lambda>c. c \<noteq> CHR ''.'' \<and> c \<noteq> CHR ''-'' \<and> c \<noteq> CHR '':'') mac"
    by (simp add: strip_delims_def py_replace_single conj_commute conj_left_commute)
  also have "\<dots> = filter (\<lambda>c. \<not> is_delimiter c) mac"
    by (rule filter_cong) (auto simp: is_delimiter_def)
  finally show ?thesis .
qed

text \<open>
  Claim C5. For every well-formed address, \<open>_parseMAC\<close> returns the value of the address,
  and the first seven characters of the PIN that \<open>generate\<close> builds with the 24-bit
  algorithm are decimal digits whose number is, modulo 10000000, that value masked with
  \<open>0xFFFFFF\<close>, modulo 10000000.
\<close>

theorem pin24_first_seven_digits:
  assumes "well_formed_mac mac"
  shows "parseMAC mac = Inr (mac_value mac) \<and>
         (\<exists>pin. generate ''pin24'' mac = Inr (PStr pin) \<and> length pin = 8 \<and>
            list_all (\<lambda>c. digit_value c < 10) (take 7 pin) \<and>
            py_int (take 7 pin) 10 = Inr (digits_value 10 (take 7 pin)) \<and>
            digits_value 10 (take 7 pin) mod 10000000 =
              (mac_value mac AND 0xFFFFFF) mod 10000000)"
proof -
  define m where "m = mac_value mac"
  have pm: "parseMAC mac = Inr m"
    using assms by (simp add: m_def mac_value_def parseMAC_well_formed strip_delims_filter)
  define p where "p = (m AND 0xFFFFFF) mod 10000000"
  have p: "0 \<le> p" "p < 10000000" by (simp_all add: p_def)
  define pin where "pin = py_zfill 8 (py_str p @ py_str (checksum p))"
  have "map_of algos ''pin24'' = Some \<lparr>name = ''24-bit PIN'', mode = ALGO_MAC,
          gen = \<lambda>mac. Inr (PInt (pin24 mac))\<rparr>"
    by (simp add: algos_def)
  then have g: "generate ''pin24'' mac = Inr (PStr pin)"
    using generate_shape [OF pm, of "''pin24''" _ "pin24 m"]
    by (simp add: pin_def p_def pin24_def)
  define ds where "ds = digits_of 10 p"
  have t: "pin = replicate (7 - length ds) CHR ''0'' @ ds @ [digit_char (nat (checksum p))]"
    and l: "length ds \<le> 7"
    using pin_text [OF p] by (simp_all add: pin_def ds_def)
  have d: "ds \<noteq> []" "\<forall>c\<in>set ds. digit_value c < 10" "digits_value 10 ds = p"
    using digits_of_props [of 10 p] p(1) by (simp_all add: ds_def)
  have t7: "take 7 pin = replicate (7 - length ds) CHR ''0'' @ ds"
    using l by (simp add: t)
  have z: "digit_value CHR ''0'' < 10"
    by (simp add: digit_value_def ord_def)
  have a7: "\<forall>c\<in>set (take 7 pin). digit_value c < 10"
    using d z by (auto simp: t7)
  have "take 7 pin \<noteq> []"
    using d by (simp add: t7)
  with a7 have i: "py_int (take 7 pin) 10 = Inr (digits_value 10 (take 7 pin))"
    by (intro py_int_digits) simp_all
  have v: "digits_value 10 (take 7 pin) = p"
    by (simp add: t7 digits_value_zeros d)
  have "length pin = 8"
    using l by (simp add: t)
  moreover have "digits_value 10 (take 7 pin) mod 10000000 = (m AND 0xFFFFFF) mod 10000000"
    by (simp add: v p_def)
  ultimately show ?thesis
    using pm g a7 i unfolding m_def by (auto simp: list_all_iff)
qed

theorem pin24_first_seven_digits_witness:
  "well_formed_mac ''00:90:4C:C1:AC:21'' \<and> mac_value ''00:90:4C:C1:AC:21'' = 619763051553 \<and>
   parseMAC ''00:90:4C:C1:AC:21'' = Inr 619763051553 \<and>
   generate ''pin24'' ''00:90:4C:C1:AC:21'' = Inr (PStr ''26925134'') \<and>
   digits_value 10 (take 7 ''26925134'') mod 10000000 =
     (619763051553 AND 0xFFFFFF) mod 10000000"
proof -
  have w: "well_formed_mac ''00:90:4C:C1:AC:21''"
    by (simp add: well_formed_mac_def strip_delims_def is_hex_def digit_value_def ord_def)
  have v: "mac_value ''00:90:4C:C1:AC:21'' = 619763051553"
    by (simp add: mac_value_def is_delimiter_def digits_value_def digit_value_def ord_def)
  have g: "generate ''pin24'' ''00:90:4C:C1:AC:21'' = Inr (PStr ''26925134'')"
    by code_simp
  show ?thesis
    using w pin24_first_seven_digits [OF w] by (simp add: v g)
qed

subsection \<open>Parsing addresses\<close>











subsection \<open>The session tracker\<close>

lemma artifact_chain:
  assumes "(if \<not> w then None else if b1 then None else if b2 then None else if b3 then None
            else if c1 \<and> h then Some Nonce else if c2 \<and> h then Some PKR
            else if c3 \<and> h then Some PKE else if c4 \<and> h then Some AuthKey
            else if c5 \<and> h then Some EHash1 else if c6 \<and> h then Some EHash2
            else None) = Some a"
  shows "(if w then
            (if b1 then x1 else if b2 then x2 else if b3 then x3
             else if c1 \<and> h then f Nonce else if c2 \<and> h then f PKR
             else if c3 \<and> h then f PKE else if c4 \<and> h then f AuthKey
             else if c5 \<and> h then f EHash1 else if c6 \<and> h then f EHash2
             else y)
          else z) = f a"
  using assms by (simp split: if_split_asm)

lemma process_line_artifact:
  assumes "artifact_branch line = Some a"
  shows "process_line ucn line opts d = store_artifact line a opts d"
  unfolding process_line_def
  by (rule artifact_chain [OF assms [unfolded artifact_branch_def],
        where f = "\<lambda>a. store_artifact line a opts d"])



lemma startswith_set: "startswith p s \<Longrightarrow> set p \<subseteq> set s"
  by (induction p s rule: startswith.induct) auto

lemma contains_set: "contains p s \<Longrightarrow> set p \<subseteq> set s"
proof (induction s)
  case Nil
  then show ?case by simp
next
  case (Cons c cs)
  then show ?case using startswith_set [of p "c # cs"] by auto
qed

lemma not_contains: "c \<in> set p \<Longrightarrow> c \<notin> set s \<Longrightarrow> \<not> contains p s"
  using contains_set by blast

lemma startswith_self_append: "startswith p (p @ b)"
  by (induction p) simp_all

lemma contains_self_append: "contains p (p @ b)"
proof (cases p)
  case Nil
  then show ?thesis by (cases b) simp_all
next
  case (Cons x xs)
  then show ?thesis using startswith_self_append [of xs b] by simp
qed

lemma contains_skip: "contains p s \<Longrightarrow> contains p (a @ s)"
  by (induction a) simp_all

lemma contains_mid: "contains p (a @ p @ b)"
  by (rule contains_skip) (rule contains_self_append)


lemma payload_set: "set (concat (replicate n '' 5a'')) \<subseteq> {CHR '' '', CHR ''5'', CHR ''a''}"
  by (induction n) auto

lemma hexdump_line_set:
  "set (hexdump_line tag n) \<subseteq>
     set ''WPS: '' \<union> set tag \<union> set '' - hexdump(len=...):'' \<union> {CHR '' '', CHR ''5'', CHR ''a''}"
proof -
  have "set (hexdump_line tag n) =
          set ''WPS: '' \<union> set tag \<union> set '' - hexdump(len=...):'' \<union>
          set (concat (replicate n '' 5a''))"
    unfolding hexdump_line_def by (simp only: set_append Un_assoc)
  then show ?thesis
    using payload_set [of n] by blast
qed

lemma not_contains_subset:
  assumes "set s \<subseteq> S" and "c \<in> set p" and "c \<notin> S"
  shows "\<not> contains p s"
proof
  assume "contains p s"
  then have "set p \<subseteq> set s" by (rule contains_set)
  with assms show False by blast
qed

lemma not_contains_hexdump:
  assumes "c \<in> set p"
    and "c \<notin> set ''WPS: '' \<union> set tag \<union> set '' - hexdump(len=...):'' \<union>
               {CHR '' '', CHR ''5'', CHR ''a''}"
  shows "\<not> contains p (hexdump_line tag n)"
  using hexdump_line_set assms by (rule not_contains_subset)

lemma contains_tag_hexdump: "contains tag (hexdump_line tag n)"
  unfolding hexdump_line_def by (rule contains_mid)

lemma contains_hexdump_hexdump: "contains ''hexdump'' (hexdump_line tag n)"
proof -
  have "hexdump_line tag n =
          (''WPS: '' @ tag @ '' - '') @ ''hexdump'' @ (''(len=...):'' @ concat (replicate n '' 5a''))"
    by (simp add: hexdump_line_def)
  then show ?thesis by (simp only: contains_mid)
qed

lemma startswith_hexdump: "startswith ''WPS: '' (hexdump_line tag n)"
  by (simp add: hexdump_line_def)

lemmas hexdump_conds =
  startswith_hexdump contains_tag_hexdump contains_hexdump_hexdump

lemma artifact_branch_hexdump:
  "artifact_branch (hexdump_line ''Enrollee Nonce'' n) = Some Nonce"
  "artifact_branch (hexdump_line ''DH own Public Key'' n) = Some PKR"
  "artifact_branch (hexdump_line ''DH peer Public Key'' n) = Some PKE"
  "artifact_branch (hexdump_line ''AuthKey'' n) = Some AuthKey"
  "artifact_branch (hexdump_line ''E-Hash1'' n) = Some EHash1"
  "artifact_branch (hexdump_line ''E-Hash2'' n) = Some EHash2"
proof -
  have b: "\<not> contains ''Building Message M'' (hexdump_line tag n)"
    if "CHR ''B'' \<notin> set tag" for tag
    using that by (intro not_contains_hexdump [of "CHR ''B''"]) simp_all
  have r: "\<not> contains ''Received M'' (hexdump_line tag n)"
    "\<not> contains ''Received WSC_NACK'' (hexdump_line tag n)"
    if "CHR ''R'' \<notin> set tag" for tag
    using that by (intro not_contains_hexdump [of "CHR ''R''"]; simp)+
  have en: "\<not> contains ''Enrollee Nonce'' (hexdump_line tag n)"
    if "CHR ''N'' \<notin> set tag" for tag
    using that by (intro not_contains_hexdump [of "CHR ''N''"]) simp_all
  have own: "\<not> contains ''DH own Public Key'' (hexdump_line tag n)"
    if "CHR ''w'' \<notin> set tag" for tag
    using that by (intro not_contains_hexdump [of "CHR ''w''"]) simp_all
  have peer: "\<not> contains ''DH peer Public Key'' (hexdump_line tag n)"
    if "CHR ''D'' \<notin> set tag" for tag
    using that by (intro not_contains_hexdump [of "CHR ''D''"]) simp_all
  have ak: "\<not> contains ''AuthKey'' (hexdump_line tag n)"
    if "CHR ''A'' \<notin> set tag" for tag
    using that by (intro not_contains_hexdump [of "CHR ''A''"]) simp_all
  have h1: "\<not> contains ''E-Hash1'' (hexdump_line tag n)"
    if "CHR ''1'' \<notin> set tag" for tag
    using that by (intro not_contains_hexdump [of "CHR ''1''"]) simp_all
  show "artifact_branch (hexdump_line ''Enrollee Nonce'' n) = Some Nonce"
    by (simp add: artifact_branch_def hexdump_conds b r)
  show "artifact_branch (hexdump_line ''DH own Public Key'' n) = Some PKR"
    by (simp add: artifact_branch_def hexdump_conds b r en)
  show "artifact_branch (hexdump_line ''DH peer Public Key'' n) = Some PKE"
    by (simp add: artifact_branch_def hexdump_conds b r en own)
  show "artifact_branch (hexdump_line ''AuthKey'' n) = Some AuthKey"
    by (simp add: artifact_branch_def hexdump_conds b r en own peer)
  show "artifact_branch (hexdump_line ''E-Hash1'' n) = Some EHash1"
    by (simp add: artifact_branch_def hexdump_conds b r en own peer ak)
  show "artifact_branch (hexdump_line ''E-Hash2'' n) = Some EHash2"
    by (simp add: artifact_branch_def hexdump_conds b r en own peer ak h1)
qed


lemma split_max_no_sep: "x \<notin> set t \<Longrightarrow> split_max_from [x] k cur t = [cur @ t]"
  by (induction t arbitrary: cur) auto

lemma split_max_skip:
  "x \<notin> set a \<Longrightarrow> 0 < k \<Longrightarrow>
     split_max_from [x] k cur (a @ x # t) = (cur @ a) # split_max_from [x] (k - 1) [] t"
  by (induction a arbitrary: cur) auto

lemma payload_replace:
  "py_replace '' '' [] (concat (replicate n '' 5a'')) = concat (replicate n ''5a'')"
  by (induction n) simp_all

lemma payload_upper: "str_upper (concat (replicate n ''5a'')) = hex5A n"
  by (induction n) (simp_all add: str_upper_def upper_cp_def ord_def hex5A_def)

lemma payload_length: "length (hex5A n) = n * 2"
  by (induction n) (simp_all add: hex5A_def)

lemma get_hex_hexdump:
  assumes "CHR '':'' \<notin> set tag"
  shows "get_hex (hexdump_line tag n) = Inr (hex5A n)"
proof -
  have p: "CHR '':'' \<notin> set (concat (replicate n '' 5a''))"
    using payload_set [of n] by auto
  have l: "hexdump_line tag n =
        ''WPS'' @ CHR '':'' # ('' '' @ tag @ '' - hexdump(len=...)'') @ CHR '':'' #
          concat (replicate n '' 5a'')"
    by (simp add: hexdump_line_def)
  have "py_split_max '':'' 3 (hexdump_line tag n) =
          [''WPS'', '' '' @ tag @ '' - hexdump(len=...)'', concat (replicate n '' 5a'')]"
    unfolding py_split_max_def l
    using assms by (subst split_max_skip, simp, simp, subst split_max_skip, simp, simp)
      (simp add: split_max_no_sep [OF p])
  then show ?thesis
    by (simp add: get_hex_def py_index_def payload_replace payload_upper)
qed

lemma rstrip_newline_id: "CHR 0x0A \<notin> set s \<Longrightarrow> rstrip_newline s = s"
  by (cases "rev s") (auto simp: rstrip_newline_def dest: arg_cong [where f = set])

lemma process_line_hexdump:
  assumes "artifact_branch (hexdump_line tag n) = Some a" and "CHR '':'' \<notin> set tag"
  shows "process_line ucn (hexdump_line tag n) opts d =
           (opts, artifact_set a (hex5A n) d,
            if n = artifact_bytes a then Inr True else Inl AssertionError)"
  by (simp add: process_line_artifact [OF assms(1)] store_artifact_def
      get_hex_hexdump [OF assms(2)] payload_length)


lemma hexdump_line_plain:
  assumes "CHR 0x0A \<notin> set tag"
  shows "hexdump_line tag n \<noteq> []" and "rstrip_newline (hexdump_line tag n) = hexdump_line tag n"
proof -
  show "hexdump_line tag n \<noteq> []" by (simp add: hexdump_line_def)
  have "CHR 0x0A \<notin> set (hexdump_line tag n)"
    using hexdump_line_set [of tag n] assms by auto
  then show "rstrip_newline (hexdump_line tag n) = hexdump_line tag n"
    by (rule rstrip_newline_id)
qed

lemma process_hexdump:
  assumes "artifact_branch (hexdump_line tag n) = Some a" and "CHR '':'' \<notin> set tag"
    and "CHR 0x0A \<notin> set tag"
  shows "process_wpa_supplicant ucn (hexdump_line tag n # pipe) opts d =
           (opts, artifact_set a (hex5A n) d,
            if n = artifact_bytes a then Inr True else Inl AssertionError)"
  by (simp add: hexdump_line_plain [OF assms(3)] process_line_hexdump [OF assms(1,2)])





lemma hex5A_nonempty: "0 < n \<Longrightarrow> hex5A n \<noteq> []"
  by (cases n) (simp_all add: hex5A_def)








text \<open>
  Claim C2, amended. On every artifact hexdump line whose payload (the text between the
  second and the third colon, blanks removed, upper-cased) does not have twice the
  mandated number of characters, \<open>process_wpa_supplicant\<close> raises \<open>AssertionError\<close>, the
  error of the source's \<open>assert\<close>, after it has stored the payload in the field of the
  artifact; \<open>poll_wpa_supplicant\<close> passes the error on, so the attempt aborts. A payload
  of exactly twice the mandated size is stored and accepted.
\<close>

theorem artifact_length_amended:
  "artifact_branch line = Some a \<and> get_hex line = Inr h \<longrightarrow>
     (length h = artifact_bytes a * 2 \<longrightarrow>
        process_line ucn line opts d = (opts, artifact_set a h d, Inr True)) \<and>
     (length h \<noteq> artifact_bytes a * 2 \<longrightarrow>
        process_line ucn line opts d = (opts, artifact_set a h d, Inl AssertionError) \<and>
        (CHR 0x0A \<notin> set line \<longrightarrow>
           poll_wpa_supplicant ucn (line # pipe) opts d =
             (opts, artifact_set a h d, Inl AssertionError)))"
proof (intro impI conjI)
  assume h: "artifact_branch line = Some a \<and> get_hex line = Inr h"
  then have p: "process_line ucn line opts d = store_artifact line a opts d"
    by (simp add: process_line_artifact)
  { assume "length h = artifact_bytes a * 2"
    with h p show "process_line ucn line opts d = (opts, artifact_set a h d, Inr True)"
      by (simp add: store_artifact_def) }
  assume l: "length h \<noteq> artifact_bytes a * 2"
  with h p show e: "process_line ucn line opts d = (opts, artifact_set a h d, Inl AssertionError)"
    by (simp add: store_artifact_def)
  assume n: "CHR 0x0A \<notin> set line"
  have "line \<noteq> []"
    using h by (auto simp: artifact_branch_def)
  with n e show "poll_wpa_supplicant ucn (line # pipe) opts d =
             (opts, artifact_set a h d, Inl AssertionError)"
    by (simp add: rstrip_newline_id)
qed

theorem artifact_length_amended_witness:
  "process_line no_names (hexdump_line ''Enrollee Nonce'' 16) opts0 Data_init =
     (opts0, Data_init\<lparr>e_nonce := hex5A 16\<rparr>, Inr True) \<and>
   poll_wpa_supplicant no_names [hexdump_line ''E-Hash1'' 31] opts0 Data_init =
     (opts0, Data_init\<lparr>e_hash1 := hex5A 31\<rparr>, Inl AssertionError)"
proof -
  have n: "CHR 0x0A \<notin> set (hexdump_line ''E-Hash1'' 31)"
    using hexdump_line_set [of "''E-Hash1''" 31] by auto
  note a = artifact_length_amended [of "hexdump_line ''Enrollee Nonce'' 16" Nonce "hex5A 16"
      no_names opts0 Data_init]
  note b = artifact_length_amended [of "hexdump_line ''E-Hash1'' 31" EHash1 "hex5A 31"
      no_names opts0 Data_init "[]"]
  show ?thesis
    using a b n by (simp add: artifact_branch_hexdump get_hex_hexdump payload_length)
qed

theorem artifact_length_counterexample:
  "process_wpa_supplicant no_names [hexdump_line ''Enrollee Nonce'' 15] opts0 Data_init =
     (opts0, Data_init\<lparr>e_nonce := hex5A 15\<rparr>, Inl AssertionError) \<and>
   length (hex5A 15) = 30 \<and>
   e_nonce (Data_init\<lparr>e_nonce := hex5A 15\<rparr>) \<noteq> e_nonce Data_init"
proof -
  have "hex5A 15 \<noteq> []" by (simp add: hex5A_nonempty)
  then show ?thesis
    by (simp add: process_hexdump artifact_branch_hexdump payload_length Data_init_def
        del: process_wpa_supplicant.simps)
qed



end
